theory Spec2Isabelle
  imports Complex_Main
begin

section \<open>The upload server of \<^verbatim>\<open>server.js\<close>\<close>

text \<open>
  The program is a single Express application: \<^verbatim>\<open>POST /upload\<close> runs multer's
  single-file middleware (configured with the source's \<^verbatim>\<open>fileFilter\<close>, \<^verbatim>\<open>storage\<close> and
  \<^verbatim>\<open>limits\<close>) and then the route handler; an error passed on by a middleware reaches the
  error-handling middleware; a timer sweeps the \<^verbatim>\<open>uploads\<close> directory.

  The callbacks written in \<^verbatim>\<open>server.js\<close> are translated one by one below. What Express,
  multer and Node's \<^verbatim>\<open>path\<close> and \<^verbatim>\<open>fs\<close> modules do between those callbacks is library
  behaviour; each such definition says so.
\<close>

subsection \<open>Configuration constants\<close>

definition FILE_SIZE_LIMIT :: nat where
  "FILE_SIZE_LIMIT = 10 * 1024 * 1024"

definition ALLOWED_FILE_TYPES :: "string list" where
  "ALLOWED_FILE_TYPES =
     [''image/jpeg'', ''image/png'', ''image/gif'', ''image/webp'',
      ''video/mp4'', ''video/mpeg'', ''video/quicktime'']"

definition UPLOAD_CLEANUP_INTERVAL :: nat where
  "UPLOAD_CLEANUP_INTERVAL = 24 * 60 * 60 * 1000"

subsection \<open>Data\<close>

text \<open>
  The file object multer hands to \<^verbatim>\<open>fileFilter\<close> and to the storage callbacks carries the
  client's file name and declared MIME type. \<open>stream_size\<close> is the number of bytes the file
  part's stream delivers; multer learns it only while writing.
\<close>

record upload_file =
  originalname :: string
  mimetype :: string
  stream_size :: nat

text \<open>\<^verbatim>\<open>req.file\<close> after a completed upload: the fields the route handler reads.\<close>

record req_file =
  rf_filename :: string
  rf_originalname :: string
  rf_mimetype :: string
  rf_size :: nat
  rf_path :: string

text \<open>
  A JavaScript error value: a plain \<^verbatim>\<open>Error\<close> with its message, or multer's
  \<^verbatim>\<open>MulterError\<close> with its code. Of multer's codes only the one for the size limit can
  arise from a request with at most one file part in the field \<^verbatim>\<open>file\<close>.
\<close>

datatype multer_code = LIMIT_FILE_SIZE

datatype js_error = Error string | MulterError multer_code

fun message :: "js_error \<Rightarrow> string" where
  "message (Error m) = m"
| "message (MulterError LIMIT_FILE_SIZE) = ''File too large''"

subsection \<open>Strings and numbers of JavaScript\<close>

text \<open>
  \<^verbatim>\<open>s.split(c)\<close> for a one-character separator: the pieces between the occurrences of
  \<open>c\<close>, never an empty array.
\<close>

fun split :: "char \<Rightarrow> string \<Rightarrow> string list" where
  "split c [] = [[]]"
| "split c (x # xs) =
     (if x = c then [] # split c xs
      else (case split c xs of
              [] \<Rightarrow> [[x]]
            | w # ws \<Rightarrow> (x # w) # ws))"

text \<open>
  \<^verbatim>\<open>a[0]\<close> inside a template literal: the first element, or the text \<^verbatim>\<open>undefined\<close> when
  the array is empty.
\<close>

definition first_or_undefined :: "string list \<Rightarrow> string" where
  "first_or_undefined a = (case a of [] \<Rightarrow> ''undefined'' | w # _ \<Rightarrow> w)"

definition digit_char :: "nat \<Rightarrow> char" where
  "digit_char d = ''0123456789'' ! d"

text \<open>
  A non-negative integer inside a template literal is printed in decimal (JavaScript
  switches to exponent notation only from \<open>10\<^sup>2\<^sup>1\<close> on, far above any clock reading or
  port number).
\<close>

function show_nat :: "nat \<Rightarrow> string" where
  "show_nat n =
     (if n < 10 then [digit_char n]
      else show_nat (n div 10) @ [digit_char (n mod 10)])"
  by pat_completeness auto
termination
  by (relation "measure id") auto

declare show_nat.simps [simp del]

subsection \<open>Node's \<^verbatim>\<open>path.extname\<close>\<close>

text \<open>
  Library behaviour (Node's \<^verbatim>\<open>path\<close> module, POSIX flavour), written as the scan it is:
  the path is read from its last character to its first; trailing slashes are skipped,
  the scan stops at the first slash after the last path component has begun, the first
  dot met (the rightmost of the component) starts the extension, and \<open>preDotState\<close>
  records what was seen to the left of that dot.
\<close>

record ext_scan =
  startDot :: int
  startPart :: int
  endPos :: int
  matchedSlash :: bool
  preDotState :: int

definition ext_init :: ext_scan where
  "ext_init = \<lparr>startDot = -1, startPart = 0, endPos = -1, matchedSlash = True,
               preDotState = 0\<rparr>"

definition mark_end :: "nat \<Rightarrow> ext_scan \<Rightarrow> ext_scan" where
  "mark_end i st =
     (if endPos st = -1 then st\<lparr>matchedSlash := False, endPos := int i + 1\<rparr> else st)"

definition see_char :: "nat \<Rightarrow> char \<Rightarrow> ext_scan \<Rightarrow> ext_scan" where
  "see_char i code st =
     (if code = CHR ''.'' then
        (if startDot st = -1 then st\<lparr>startDot := int i\<rparr>
         else if preDotState st \<noteq> 1 then st\<lparr>preDotState := 1\<rparr>
         else st)
      else if startDot st \<noteq> -1 then st\<lparr>preDotState := -1\<rparr>
      else st)"

text \<open>\<open>extname_loop path n st\<close> runs the loop for the indices \<open>n - 1\<close> down to \<open>0\<close>.\<close>

fun extname_loop :: "string \<Rightarrow> nat \<Rightarrow> ext_scan \<Rightarrow> ext_scan" where
  "extname_loop path 0 st = st"
| "extname_loop path (Suc i) st =
     (if path ! i = CHR ''/'' then
        (if \<not> matchedSlash st then st\<lparr>startPart := int i + 1\<rparr>
         else extname_loop path i st)
      else extname_loop path i (see_char i (path ! i) (mark_end i st)))"

definition slice :: "string \<Rightarrow> int \<Rightarrow> int \<Rightarrow> string" where
  "slice s a b = take (nat b - nat a) (drop (nat a) s)"

definition extname :: "string \<Rightarrow> string" where
  "extname path =
     (let st = extname_loop path (length path) ext_init in
      if startDot st = -1 \<or> endPos st = -1 \<or> preDotState st = 0 \<or>
         (preDotState st = 1 \<and> startDot st = endPos st - 1 \<and>
          startDot st = startPart st + 1)
      then []
      else slice path (startDot st) (endPos st))"

subsection \<open>The storage callbacks and the file filter\<close>

text \<open>
  \<^verbatim>\<open>storage.filename\<close>. The two readings it takes from outside are parameters:
  \<open>now\<close> is \<^verbatim>\<open>Date.now()\<close> (epoch milliseconds) and \<open>rnd\<close> is
  \<^verbatim>\<open>Math.round(Math.random() * 1E9)\<close>, an integer from \<open>0\<close> to \<open>10\<^sup>9\<close>.
\<close>

definition fileType :: "upload_file \<Rightarrow> string" where
  "fileType f = first_or_undefined (split (CHR ''/'') (mimetype f))"

definition filename :: "upload_file \<Rightarrow> nat \<Rightarrow> nat \<Rightarrow> string" where
  "filename f now rnd =
     (let fileExtension = extname (originalname f);
          uniqueSuffix = fileType f @ ''_'' @ show_nat now @ ''_'' @ show_nat rnd
      in uniqueSuffix @ fileExtension)"

text \<open>
  \<^verbatim>\<open>fileFilter\<close> answers through its callback \<^verbatim>\<open>cb(error, acceptFile)\<close>; the pair is the
  callback's two arguments.
\<close>

definition fileFilter :: "upload_file \<Rightarrow> js_error option \<times> bool" where
  "fileFilter f =
     (if mimetype f \<in> set ALLOWED_FILE_TYPES then (None, True)
      else (Some (Error ''Invalid file type''), False))"

subsection \<open>The uploads directory\<close>

text \<open>
  The storage root is one flat directory. Of each entry the program reads only the name
  and \<^verbatim>\<open>stats.birthtimeMs\<close>, a number of milliseconds that may carry a fraction.
\<close>

record stats =
  birthtimeMs :: real

type_synonym directory = "(string \<times> stats) list"

definition names :: "directory \<Rightarrow> string set" where
  "names d = fst ` set d"

text \<open>
  Library behaviour (\<^verbatim>\<open>fs.createWriteStream\<close> as multer's disk storage uses it): the file
  is created with the current time as birth time, and an existing file of that name is
  overwritten in place.
\<close>

definition write_file :: "directory \<Rightarrow> string \<Rightarrow> nat \<Rightarrow> directory" where
  "write_file d name now =
     (if name \<in> names d then d else d @ [(name, \<lparr>birthtimeMs = real now\<rparr>)])"

definition remove_file :: "directory \<Rightarrow> string \<Rightarrow> directory" where
  "remove_file d name = filter (\<lambda>e. fst e \<noteq> name) d"

text \<open>
  What the file system may refuse during a sweep is an input of the model: a fault for
  listing the directory, and one per entry for \<^verbatim>\<open>fs.stat\<close> and for \<^verbatim>\<open>fs.unlink\<close>
  (a permission failure, an entry that another process removed).
\<close>

record io_faults =
  readdir_fault :: "js_error option"
  stat_fault :: "string \<Rightarrow> js_error option"
  unlink_fault :: "string \<Rightarrow> js_error option"

definition readdir :: "io_faults \<Rightarrow> directory \<Rightarrow> js_error + string list" where
  "readdir io d =
     (case readdir_fault io of Some err \<Rightarrow> Inl err | None \<Rightarrow> Inr (map fst d))"

definition stat :: "io_faults \<Rightarrow> directory \<Rightarrow> string \<Rightarrow> js_error + stats" where
  "stat io d name =
     (case stat_fault io name of
        Some err \<Rightarrow> Inl err
      | None \<Rightarrow> (case map_of d name of
                  None \<Rightarrow> Inl (Error ''ENOENT'')
                | Some st \<Rightarrow> Inr st))"

definition unlink :: "io_faults \<Rightarrow> directory \<Rightarrow> string \<Rightarrow> js_error + directory" where
  "unlink io d name =
     (case unlink_fault io name of
        Some err \<Rightarrow> Inl err
      | None \<Rightarrow> (if name \<in> names d then Inr (remove_file d name)
                 else Inl (Error ''ENOENT'')))"

subsection \<open>The upload middleware\<close>

text \<open>
  Modelled from the spec: multer's enforcement of \<^verbatim>\<open>limits.fileSize\<close> is library code
  that \<^verbatim>\<open>server.js\<close> only configures. The spec rejects an upload whose size "exceeds the
  configured limit"; the limit itself is the source's \<open>FILE_SIZE_LIMIT\<close>.
\<close>

definition exceeds_limit :: "nat \<Rightarrow> nat \<Rightarrow> bool" where
  "exceeds_limit sizeBytes limit = (limit < sizeBytes)"

text \<open>
  Library behaviour (\<^verbatim>\<open>upload.single('file')\<close>, multer with disk storage), in multer's
  order. A request without a file part goes on with \<^verbatim>\<open>req.file\<close> undefined. For a file
  part \<^verbatim>\<open>fileFilter\<close> is asked first: an error given to its callback aborts the request
  with that error, \<^verbatim>\<open>cb(null, false)\<close> skips the file, \<^verbatim>\<open>cb(null, true)\<close> stores it.
  Storing asks \<^verbatim>\<open>storage.filename\<close> for the name and streams the bytes to
  \<^verbatim>\<open>uploadDir/name\<close>; when the stream passes the size limit the file written so far is
  removed and the request is aborted with \<^verbatim>\<open>MulterError('LIMIT_FILE_SIZE')\<close>.
  The result is the error passed to \<^verbatim>\<open>next\<close>, or else \<^verbatim>\<open>req.file\<close>, with the directory
  as the request leaves it. The \<^verbatim>\<open>storage.destination\<close> callback only names the uploads
  directory \<open>uploadDir\<close> and creates it when it is missing; the state here is what the
  directory holds.
\<close>

definition upload_single ::
  "string \<Rightarrow> nat \<Rightarrow> nat \<Rightarrow> directory \<Rightarrow> upload_file option
     \<Rightarrow> (js_error + req_file option) \<times> directory" where
  "upload_single uploadDir now rnd d part =
     (case part of
        None \<Rightarrow> (Inr None, d)
      | Some f \<Rightarrow>
          (case fileFilter f of
             (Some err, _) \<Rightarrow> (Inl err, d)
           | (None, False) \<Rightarrow> (Inr None, d)
           | (None, True) \<Rightarrow>
               (let name = filename f now rnd in
                if exceeds_limit (stream_size f) FILE_SIZE_LIMIT
                then (Inl (MulterError LIMIT_FILE_SIZE),
                      remove_file (write_file d name now) name)
                else (Inr (Some \<lparr>rf_filename = name,
                                  rf_originalname = originalname f,
                                  rf_mimetype = mimetype f,
                                  rf_size = stream_size f,
                                  rf_path = uploadDir @ ''/'' @ name\<rparr>),
                      write_file d name now))))"

subsection \<open>The route handler and the error-handling middleware\<close>

datatype json = JBool bool | JNumber nat | JString string | JObject "(string \<times> json) list"

record response =
  status :: nat
  body :: json

text \<open>
  The handler of \<^verbatim>\<open>POST /upload\<close>. Nothing inside its \<^verbatim>\<open>try\<close> block can throw
  (\<^verbatim>\<open>req.file.mimetype\<close> is always a string), so the \<^verbatim>\<open>catch\<close> branch has no case here.
  \<^verbatim>\<open>res.json\<close> without \<^verbatim>\<open>res.status\<close> answers with status 200.
\<close>

definition post_upload :: "string \<Rightarrow> req_file option \<Rightarrow> response" where
  "post_upload port rf =
     (case rf of
        None \<Rightarrow>
          \<lparr>status = 400,
           body = JObject
             [(''success'', JBool False),
              (''message'', JString ''No file was uploaded or file type is not allowed'')]\<rparr>
      | Some f \<Rightarrow>
          (let fileInfo = JObject
                 [(''filename'', JString (rf_filename f)),
                  (''originalname'', JString (rf_originalname f)),
                  (''mimetype'', JString (rf_mimetype f)),
                  (''size'', JNumber (rf_size f)),
                  (''path'', JString (rf_path f)),
                  (''url'', JString (''http://localhost:'' @ port @ ''/uploads/'' @ rf_filename f)),
                  (''type'', JString (first_or_undefined (split (CHR ''/'') (rf_mimetype f))))]
           in \<lparr>status = 200,
               body = JObject
                 [(''success'', JBool True),
                  (''message'', JString ''File uploaded successfully''),
                  (''file'', fileInfo)]\<rparr>))"

definition error_middleware :: "js_error \<Rightarrow> response" where
  "error_middleware err =
     \<lparr>status = 500,
      body = JObject
        [(''success'', JBool False),
         (''message'', JString ''An unexpected error occurred''),
         (''error'', JString (message err))]\<rparr>"

text \<open>
  Library behaviour (Express): an error passed to \<^verbatim>\<open>next\<close> skips the route handler and
  reaches the error-handling middleware; otherwise the route handler answers.
\<close>

definition handle_upload ::
  "string \<Rightarrow> string \<Rightarrow> nat \<Rightarrow> nat \<Rightarrow> directory \<Rightarrow> upload_file option
     \<Rightarrow> response \<times> directory" where
  "handle_upload port uploadDir now rnd d part =
     (case upload_single uploadDir now rnd d part of
        (Inl err, d') \<Rightarrow> (error_middleware err, d')
      | (Inr rf, d') \<Rightarrow> (post_upload port rf, d'))"

subsection \<open>The periodic cleanup\<close>

text \<open>The lines the cleanup writes with \<^verbatim>\<open>console.error\<close> and \<^verbatim>\<open>console.log\<close>.\<close>

datatype log_line =
    ErrorReadingUploadsDirectory js_error
  | ErrorGettingFileStats js_error
  | ErrorDeletingOldFile js_error
  | DeletedOldFile string

text \<open>
  The body of \<^verbatim>\<open>files.forEach\<close> for one entry: the \<^verbatim>\<open>fs.stat\<close> callback and, inside it,
  the \<^verbatim>\<open>fs.unlink\<close> callback. The callbacks of different entries run in an order the
  event loop chooses, but each reads and removes only its own entry, so they are run here
  in the order of the listing.
\<close>

definition cleanup_file ::
  "io_faults \<Rightarrow> nat \<Rightarrow> string \<Rightarrow> directory \<times> log_line list
     \<Rightarrow> directory \<times> log_line list" where
  "cleanup_file io now file acc =
     (case acc of (d, logged) \<Rightarrow>
        (case stat io d file of
           Inl err \<Rightarrow> (d, logged @ [ErrorGettingFileStats err])
         | Inr st \<Rightarrow>
             if real now - birthtimeMs st > real UPLOAD_CLEANUP_INTERVAL then
               (case unlink io d file of
                  Inl err \<Rightarrow> (d, logged @ [ErrorDeletingOldFile err])
                | Inr d' \<Rightarrow> (d', logged @ [DeletedOldFile file]))
             else (d, logged)))"

fun forEach_file ::
  "io_faults \<Rightarrow> nat \<Rightarrow> string list \<Rightarrow> directory \<times> log_line list
     \<Rightarrow> directory \<times> log_line list" where
  "forEach_file io now [] acc = acc"
| "forEach_file io now (file # files) acc =
     forEach_file io now files (cleanup_file io now file acc)"

text \<open>One firing of the timer: the \<^verbatim>\<open>setInterval\<close> callback with \<open>now = Date.now()\<close>.\<close>

definition cleanup :: "io_faults \<Rightarrow> nat \<Rightarrow> directory \<Rightarrow> directory \<times> log_line list" where
  "cleanup io now d =
     (case readdir io d of
        Inl err \<Rightarrow> (d, [ErrorReadingUploadsDirectory err])
      | Inr files \<Rightarrow> forEach_file io now files (d, []))"

text \<open>
  The timer fires again and again; each firing has its own clock reading and meets its
  own faults. No firing throws, so the next one always runs.
\<close>

fun run_interval ::
  "(io_faults \<times> nat) list \<Rightarrow> directory \<Rightarrow> directory \<times> log_line list" where
  "run_interval [] d = (d, [])"
| "run_interval ((io, now) # ticks) d =
     (case cleanup io now d of
        (d', logged) \<Rightarrow>
          (case run_interval ticks d' of
             (d'', logged') \<Rightarrow> (d'', logged @ logged')))"

subsection \<open>The extension in the words of the spec\<close>

text \<open>
  The spec describes the extension as the original file name's suffix, including the dot,
  and as the empty string when there is none; its design notes call it the suffix after
  the last dot. \<open>suffix_from_last_dot\<close> is that reading, to be compared with \<open>extname\<close>.
  \<open>only_leading_dot\<close> holds of a name whose single dot is its first character.
\<close>

definition suffix_from_last_dot :: "string \<Rightarrow> string" where
  "suffix_from_last_dot name =
     (if CHR ''.'' \<in> set name
      then CHR ''.'' # rev (takeWhile (\<lambda>c. c \<noteq> CHR ''.'') (rev name))
      else [])"

definition only_leading_dot :: "string \<Rightarrow> bool" where
  "only_leading_dot name =
     (case name of [] \<Rightarrow> False | c # suf \<Rightarrow> c = CHR ''.'' \<and> CHR ''.'' \<notin> set suf)"

subsection \<open>Notions used in the proofs about names\<close>

text \<open>
  \<open>is_digit\<close> recognises the ten decimal digits and \<open>read_nat\<close> reads a decimal numeral
  back. \<open>scan_inv path n st\<close> is what holds of the scan of \<open>extname_loop\<close> before it reads
  index \<open>n - 1\<close>; \<open>scan_result path st\<close> is what holds of the state the scan ends in.
\<close>

definition is_digit :: "char \<Rightarrow> bool" where
  "is_digit c = (c \<in> set ''0123456789'')"

definition read_nat :: "string \<Rightarrow> nat" where
  "read_nat s = foldl (\<lambda>a c. 10 * a + (of_char c - 48)) 0 s"

definition scan_inv :: "string \<Rightarrow> nat \<Rightarrow> ext_scan \<Rightarrow> bool" where
  "scan_inv path n st =
     ((endPos st = -1 \<and> startDot st = -1 \<and> matchedSlash st) \<or>
      (\<not> matchedSlash st \<and> int n < endPos st \<and> endPos st \<le> int (length path) \<and>
       (\<forall>j. n \<le> j \<and> int j < endPos st \<longrightarrow> path ! j \<noteq> CHR ''/'') \<and>
       ((startDot st = -1 \<and> (\<forall>j. n \<le> j \<and> int j < endPos st \<longrightarrow> path ! j \<noteq> CHR ''.'')) \<or>
        (int n \<le> startDot st \<and> startDot st < endPos st \<and>
         path ! nat (startDot st) = CHR ''.'' \<and>
         (\<forall>j. startDot st < int j \<and> int j < endPos st \<longrightarrow> path ! j \<noteq> CHR ''.'')))))"

definition scan_result :: "string \<Rightarrow> ext_scan \<Rightarrow> bool" where
  "scan_result path st =
     (startDot st = -1 \<or>
      (0 \<le> startDot st \<and> startDot st < endPos st \<and> endPos st \<le> int (length path) \<and>
       path ! nat (startDot st) = CHR ''.'' \<and>
       (\<forall>j. startDot st \<le> int j \<and> int j < endPos st \<longrightarrow> path ! j \<noteq> CHR ''/'') \<and>
       (\<forall>j. startDot st < int j \<and> int j < endPos st \<longrightarrow> path ! j \<noteq> CHR ''.'')))"

subsection \<open>Notions used in the proofs about the cleanup\<close>

text \<open>
  \<open>deleted_by io now d name\<close>: the entry \<open>name\<close> of \<open>d\<close> can be read and removed, and
  is older than the cleanup interval at \<open>now\<close>. \<open>log_of io now d file\<close>: the lines that
  handling the entry \<open>file\<close> alone writes.
\<close>

definition deleted_by :: "io_faults \<Rightarrow> nat \<Rightarrow> directory \<Rightarrow> string \<Rightarrow> bool" where
  "deleted_by io now d name =
     (stat_fault io name = None \<and> unlink_fault io name = None \<and>
      (case map_of d name of
         None \<Rightarrow> False
       | Some st \<Rightarrow> real now - birthtimeMs st > real UPLOAD_CLEANUP_INTERVAL))"

definition log_of :: "io_faults \<Rightarrow> nat \<Rightarrow> directory \<Rightarrow> string \<Rightarrow> log_line list" where
  "log_of io now d file = snd (cleanup_file io now file (d, []))"

section \<open>Properties\<close>

subsection \<open>Validation of an upload\<close>

lemma fileFilter_allowed:
  "mimetype f \<in> set ALLOWED_FILE_TYPES \<Longrightarrow> fileFilter f = (None, True)"
  by (simp add: fileFilter_def)

lemma fileFilter_disallowed:
  "mimetype f \<notin> set ALLOWED_FILE_TYPES \<Longrightarrow>
   fileFilter f = (Some (Error ''Invalid file type''), False)"
  by (simp add: fileFilter_def)

lemma set_ALLOWED_FILE_TYPES:
  "set ALLOWED_FILE_TYPES =
     {''image/jpeg'', ''image/png'', ''image/gif'', ''image/webp'',
      ''video/mp4'', ''video/mpeg'', ''video/quicktime''}"
  by (simp add: ALLOWED_FILE_TYPES_def)

lemma remove_written: "remove_file (write_file d name now) name = remove_file d name"
  by (simp add: remove_file_def write_file_def)

lemma names_remove_file: "names (remove_file d name) = names d - {name}"
  by (auto simp: names_def remove_file_def)

lemma set_remove_file: "set (remove_file d name) \<subseteq> set d"
  by (auto simp: remove_file_def)

text \<open>
  C1. An upload whose declared MIME type is outside the seven allowed types is refused
  with the error \<^verbatim>\<open>Invalid file type\<close> (the spec's \<open>UnsupportedType\<close>) and the uploads
  directory is left exactly as it was; a type inside the set passes \<^verbatim>\<open>fileFilter\<close>, and
  the upload is then stored unless the size check refuses it.
\<close>

theorem unsupported_type_rejected:
  "(mimetype f \<notin> {''image/jpeg'', ''image/png'', ''image/gif'', ''image/webp'',
                    ''video/mp4'', ''video/mpeg'', ''video/quicktime''}
      \<longrightarrow> upload_single uploadDir now rnd d (Some f) = (Inl (Error ''Invalid file type''), d))
   \<and> (mimetype f \<in> {''image/jpeg'', ''image/png'', ''image/gif'', ''image/webp'',
                    ''video/mp4'', ''video/mpeg'', ''video/quicktime''}
      \<longrightarrow> fileFilter f = (None, True)
        \<and> (\<not> exceeds_limit (stream_size f) FILE_SIZE_LIMIT
             \<longrightarrow> (\<exists>rf. fst (upload_single uploadDir now rnd d (Some f)) = Inr (Some rf))))"
  unfolding set_ALLOWED_FILE_TYPES [symmetric]
  by (simp add: upload_single_def fileFilter_allowed fileFilter_disallowed Let_def)

theorem unsupported_type_rejected_witness:
  "upload_single ''/srv/uploads'' 1700000000000 42 []
     (Some \<lparr>originalname = ''report.pdf'', mimetype = ''application/pdf'', stream_size = 1024\<rparr>)
     = (Inl (Error ''Invalid file type''), [])
   \<and> fileFilter \<lparr>originalname = ''photo.png'', mimetype = ''image/png'', stream_size = 2048\<rparr>
     = (None, True)
   \<and> (\<exists>rf. fst (upload_single ''/srv/uploads'' 1700000000000 42 []
         (Some \<lparr>originalname = ''photo.png'', mimetype = ''image/png'', stream_size = 2048\<rparr>))
         = Inr (Some rf))"
  using unsupported_type_rejected
          [of "\<lparr>originalname = ''report.pdf'', mimetype = ''application/pdf'', stream_size = 1024\<rparr>"
              "''/srv/uploads''" 1700000000000 42 "[]"]
        unsupported_type_rejected
          [of "\<lparr>originalname = ''photo.png'', mimetype = ''image/png'', stream_size = 2048\<rparr>"
              "''/srv/uploads''" 1700000000000 42 "[]"]
  by (simp add: exceeds_limit_def FILE_SIZE_LIMIT_def)

text \<open>
  C2. The request without a file part is answered with status 400 and the body
  \<^verbatim>\<open>{ success: false, message }\<close>. The request whose file has a type outside the allowed
  set is not: \<^verbatim>\<open>fileFilter\<close> hands an \<^verbatim>\<open>Error\<close> to its callback, the route handler with
  its 400 answer is skipped, and the error-handling middleware answers with status 500
  and the body \<^verbatim>\<open>{ success: false, message, error }\<close>.
\<close>

theorem disallowed_type_answered_with_500:
  "handle_upload port uploadDir now rnd d
     (Some \<lparr>originalname = ''report.pdf'', mimetype = ''application/pdf'', stream_size = 1024\<rparr>)
   = (\<lparr>status = 500,
       body = JObject [(''success'', JBool False),
                       (''message'', JString ''An unexpected error occurred''),
                       (''error'', JString ''Invalid file type'')]\<rparr>, d)
   \<and> handle_upload port uploadDir now rnd d None
   = (\<lparr>status = 400,
       body = JObject [(''success'', JBool False),
                       (''message'', JString ''No file was uploaded or file type is not allowed'')]\<rparr>, d)"
  by (simp add: handle_upload_def upload_single_def fileFilter_def ALLOWED_FILE_TYPES_def
        error_middleware_def post_upload_def)

text \<open>
  C3. An upload of an allowed type with more than \<open>10 * 1024 * 1024\<close> bytes is refused
  with \<^verbatim>\<open>MulterError('LIMIT_FILE_SIZE')\<close> (the spec's \<open>PayloadTooLarge\<close>); the partly
  written file is removed, so no entry of the composed name is left and nothing else is
  added to the directory. An upload of exactly \<open>10 * 1024 * 1024\<close> bytes is stored.
  The type check comes first, hence the premise on the type.
\<close>

theorem oversize_rejected:
  "mimetype f \<in> set ALLOWED_FILE_TYPES \<Longrightarrow>
   (10 * 1024 * 1024 < stream_size f \<longrightarrow>
      upload_single uploadDir now rnd d (Some f)
        = (Inl (MulterError LIMIT_FILE_SIZE), remove_file d (filename f now rnd))
      \<and> filename f now rnd \<notin> names (snd (upload_single uploadDir now rnd d (Some f)))
      \<and> set (snd (upload_single uploadDir now rnd d (Some f))) \<subseteq> set d)
   \<and> (stream_size f = 10 * 1024 * 1024 \<longrightarrow>
      (\<exists>rf. fst (upload_single uploadDir now rnd d (Some f)) = Inr (Some rf)
            \<and> rf_size rf = 10 * 1024 * 1024))"
  by (simp add: upload_single_def fileFilter_allowed exceeds_limit_def FILE_SIZE_LIMIT_def
        remove_written names_remove_file Let_def set_remove_file)

theorem oversize_rejected_witness:
  "fst (upload_single ''/srv/uploads'' 1700000000000 42 []
     (Some \<lparr>originalname = ''clip.mp4'', mimetype = ''video/mp4'', stream_size = 10485761\<rparr>))
     = Inl (MulterError LIMIT_FILE_SIZE)
   \<and> snd (upload_single ''/srv/uploads'' 1700000000000 42 []
     (Some \<lparr>originalname = ''clip.mp4'', mimetype = ''video/mp4'', stream_size = 10485761\<rparr>))
     = []
   \<and> (\<exists>rf. fst (upload_single ''/srv/uploads'' 1700000000000 42 []
         (Some \<lparr>originalname = ''clip.mp4'', mimetype = ''video/mp4'', stream_size = 10485760\<rparr>))
         = Inr (Some rf) \<and> rf_size rf = 10485760)"
  using oversize_rejected
          [of "\<lparr>originalname = ''clip.mp4'', mimetype = ''video/mp4'', stream_size = 10485761\<rparr>"
              "''/srv/uploads''" 1700000000000 42 "[]"]
        oversize_rejected
          [of "\<lparr>originalname = ''clip.mp4'', mimetype = ''video/mp4'', stream_size = 10485760\<rparr>"
              "''/srv/uploads''" 1700000000000 42 "[]"]
  by (simp add: ALLOWED_FILE_TYPES_def remove_file_def)

subsection \<open>Decimal numerals and splitting\<close>

lemma below_ten: "d < 10 \<Longrightarrow> d = 0 \<or> d = 1 \<or> d = 2 \<or> d = 3 \<or> d = 4 \<or> d = 5 \<or> d = 6 \<or> d = 7 \<or> d = 8 \<or> d = (9::nat)"
  by arith

lemma digit_char_is_digit: "d < 10 \<Longrightarrow> is_digit (digit_char d)"
  unfolding is_digit_def digit_char_def by (rule nth_mem) simp

lemma of_char_digit_char: "d < 10 \<Longrightarrow> of_char (digit_char d) = 48 + d"
  using below_ten [of d] by (auto simp: digit_char_def)

lemma show_nat_digits: "\<forall>c \<in> set (show_nat n). is_digit c"
proof (induction n rule: show_nat.induct)
  case (1 n)
  show ?case
  proof (cases "n < 10")
    case True
    then show ?thesis
      using digit_char_is_digit [of n] by (subst show_nat.simps) simp
  next
    case False
    then show ?thesis
      using 1 digit_char_is_digit [of "n mod 10"]
      by (subst show_nat.simps) simp
  qed
qed

lemma show_nat_nonempty: "show_nat n \<noteq> []"
  by (subst show_nat.simps) simp

lemma read_nat_snoc: "read_nat (s @ [c]) = 10 * read_nat s + (of_char c - 48)"
  by (simp add: read_nat_def)

lemma read_show_nat: "read_nat (show_nat n) = n"
proof (induction n rule: show_nat.induct)
  case (1 n)
  show ?case
  proof (cases "n < 10")
    case True
    then show ?thesis
      by (subst show_nat.simps) (simp add: read_nat_def of_char_digit_char)
  next
    case False
    then have "read_nat (show_nat (n div 10)) = n div 10" using 1 by simp
    then show ?thesis
      using False by (subst show_nat.simps) (simp add: read_nat_snoc of_char_digit_char)
  qed
qed

lemma show_nat_inj: "show_nat a = show_nat b \<Longrightarrow> a = b"
  by (metis read_show_nat)

lemma split_nonempty: "split c s \<noteq> []"
  by (induction s) (auto split: list.splits)

lemma split_first: "first_or_undefined (split c s) = takeWhile (\<lambda>x. x \<noteq> c) s"
  using split_nonempty [of c]
  by (induction s) (auto simp: first_or_undefined_def split: list.splits)

lemma fileType_takeWhile: "fileType f = takeWhile (\<lambda>x. x \<noteq> CHR ''/'') (mimetype f)"
  by (simp add: fileType_def split_first)

lemma split_at_first:
  "xs @ c # ys = xs' @ c # ys' \<Longrightarrow> c \<notin> set xs \<Longrightarrow> c \<notin> set xs' \<Longrightarrow> xs = xs' \<and> ys = ys'"
proof (induction xs arbitrary: xs')
  case Nil
  then show ?case by (cases xs') auto
next
  case (Cons x xs)
  then show ?case by (cases xs') auto
qed

lemma split_at_nondigit:
  assumes "ds @ e = ds' @ e'"
    and "\<forall>c \<in> set ds. is_digit c" and "\<forall>c \<in> set ds'. is_digit c"
    and "e = [] \<or> \<not> is_digit (hd e)" and "e' = [] \<or> \<not> is_digit (hd e')"
  shows "ds = ds' \<and> e = e'"
proof -
  have tw: "takeWhile is_digit (xs @ ys) = xs"
    if "\<forall>c \<in> set xs. is_digit c" "ys = [] \<or> \<not> is_digit (hd ys)" for xs ys :: string
    using that by (cases ys) (auto simp: takeWhile_append2)
  have "ds = takeWhile is_digit (ds @ e)" using tw assms(2,4) by simp
  also have "\<dots> = ds'" using assms(1) tw assms(3,5) by simp
  finally show ?thesis using assms(1) by simp
qed

subsection \<open>The extension found by \<^verbatim>\<open>path.extname\<close>\<close>

lemma scan_inv_init: "scan_inv path n ext_init"
  by (simp add: scan_inv_def ext_init_def)

lemma scan_inv_result: "scan_inv path n st \<Longrightarrow> scan_result path st"
  unfolding scan_inv_def scan_result_def by auto

lemma scan_result_startPart: "scan_result path st \<Longrightarrow> scan_result path (st\<lparr>startPart := k\<rparr>)"
  by (simp add: scan_result_def)

lemma scan_inv_step:
  assumes "scan_inv path (Suc i) st" and "i < length path" and "path ! i \<noteq> CHR ''/''"
  shows "scan_inv path i (see_char i (path ! i) (mark_end i st))"
proof -
  have le: "\<And>j. i \<le> j \<longleftrightarrow> j = i \<or> Suc i \<le> j" by auto
  show ?thesis
    using assms unfolding scan_inv_def mark_end_def see_char_def
    by (auto simp: le)
qed

lemma extname_loop_result:
  "scan_inv path n st \<Longrightarrow> n \<le> length path \<Longrightarrow> scan_result path (extname_loop path n st)"
proof (induction n arbitrary: st)
  case 0
  then show ?case by (simp add: scan_inv_result)
next
  case (Suc i)
  show ?case
  proof (cases "path ! i = CHR ''/''")
    case slash: True
    show ?thesis
    proof (cases "matchedSlash st")
      case True
      then have "scan_inv path i st"
        using Suc.prems(1) by (simp add: scan_inv_def)
      then show ?thesis
        using Suc.IH [of st] Suc.prems(2) slash True by simp
    next
      case False
      then show ?thesis
        using slash Suc.prems(1) by (simp add: scan_inv_result scan_result_startPart)
    qed
  next
    case False
    then have "scan_inv path i (see_char i (path ! i) (mark_end i st))"
      using Suc.prems by (intro scan_inv_step) auto
    then show ?thesis
      using Suc.IH Suc.prems(2) False by simp
  qed
qed

lemma extname_scan:
  "scan_result path (extname_loop path (length path) ext_init)"
  by (rule extname_loop_result [OF scan_inv_init]) simp

lemma slice_map:
  assumes "0 \<le> a" "a < b" "b \<le> int (length s)"
  shows "slice s a b = map ((!) s) [nat a..<nat b]"
proof (rule nth_equalityI)
  show "length (slice s a b) = length (map ((!) s) [nat a..<nat b])"
    using assms by (simp add: slice_def)
next
  fix i assume "i < length (slice s a b)"
  then have "i < nat b - nat a"
    by (simp add: slice_def)
  then show "slice s a b ! i = map ((!) s) [nat a..<nat b] ! i"
    using assms by (simp add: slice_def)
qed

lemma slice_nth:
  assumes "0 \<le> a" "a < b" "b \<le> int (length s)"
  shows "set (slice s a b) = {s ! j | j. a \<le> int j \<and> int j < b}"
    and "hd (slice s a b) = s ! nat a"
    and "slice s a b \<noteq> []"
    and "set (tl (slice s a b)) = {s ! j | j. a < int j \<and> int j < b}"
proof -
  have sl: "slice s a b = map ((!) s) [nat a..<nat b]"
    using assms by (rule slice_map)
  have ne: "[nat a..<nat b] \<noteq> []"
    using assms by simp
  show "slice s a b \<noteq> []"
    using sl ne by simp
  show "hd (slice s a b) = s ! nat a"
    using sl ne assms by (simp add: hd_map)
  show "set (slice s a b) = {s ! j | j. a \<le> int j \<and> int j < b}"
  proof -
    have "(!) s ` {nat a..<nat b} = {s ! j | j. a \<le> int j \<and> int j < b}"
    proof safe
      fix x assume "x \<in> {nat a..<nat b}"
      then have "a \<le> int x \<and> int x < b" using assms by auto
      then show "\<exists>j. s ! x = s ! j \<and> a \<le> int j \<and> int j < b" by blast
    next
      fix j assume "a \<le> int j" "int j < b"
      then have "j \<in> {nat a..<nat b}" using assms by auto
      then show "s ! j \<in> (!) s ` {nat a..<nat b}" by blast
    qed
    then show ?thesis unfolding sl by simp
  qed
  have "tl (slice s a b) = map ((!) s) [Suc (nat a)..<nat b]"
    unfolding sl using assms by (simp add: upt_conv_Cons)
  moreover have "(!) s ` {Suc (nat a)..<nat b} = {s ! j | j. a < int j \<and> int j < b}"
  proof safe
    fix x assume "x \<in> {Suc (nat a)..<nat b}"
    then have "a < int x \<and> int x < b" using assms by auto
    then show "\<exists>j. s ! x = s ! j \<and> a < int j \<and> int j < b" by blast
  next
    fix j assume "a < int j" "int j < b"
    then have "j \<in> {Suc (nat a)..<nat b}" using assms by auto
    then show "s ! j \<in> (!) s ` {Suc (nat a)..<nat b}" by blast
  qed
  ultimately show "set (tl (slice s a b)) = {s ! j | j. a < int j \<and> int j < b}"
    by simp
qed

lemma extname_shape:
  "extname path = [] \<or>
   (hd (extname path) = CHR ''.'' \<and> CHR ''.'' \<notin> set (tl (extname path)))"
proof (cases "extname path = []")
  case True
  then show ?thesis by simp
next
  case False
  define st where "st = extname_loop path (length path) ext_init"
  have ex: "extname path = slice path (startDot st) (endPos st)" and sd: "startDot st \<noteq> -1"
    using False by (auto simp: extname_def st_def Let_def split: if_splits)
  have r: "scan_result path st"
    unfolding st_def by (rule extname_scan)
  then have b: "0 \<le> startDot st" "startDot st < endPos st" "endPos st \<le> int (length path)"
    and dot: "path ! nat (startDot st) = CHR ''.''"
    and nodot: "\<forall>j. startDot st < int j \<and> int j < endPos st \<longrightarrow> path ! j \<noteq> CHR ''.''"
    using sd by (auto simp: scan_result_def)
  show ?thesis
    using slice_nth(2,4) [OF b] dot nodot ex by auto
qed

lemma extname_no_slash: "CHR ''/'' \<notin> set (extname path)"
proof (cases "extname path = []")
  case True
  then show ?thesis by simp
next
  case False
  define st where "st = extname_loop path (length path) ext_init"
  have ex: "extname path = slice path (startDot st) (endPos st)" and sd: "startDot st \<noteq> -1"
    using False by (auto simp: extname_def st_def Let_def split: if_splits)
  have r: "scan_result path st"
    unfolding st_def by (rule extname_scan)
  then have b: "0 \<le> startDot st" "startDot st < endPos st" "endPos st \<le> int (length path)"
    and noslash: "\<forall>j. startDot st \<le> int j \<and> int j < endPos st \<longrightarrow> path ! j \<noteq> CHR ''/''"
    using sd by (auto simp: scan_result_def)
  show ?thesis
    using slice_nth(1) [OF b] noslash ex by auto
qed

lemma startDot_stays:
  "startDot st = -1 \<Longrightarrow> \<forall>j < n. path ! j \<noteq> CHR ''.'' \<Longrightarrow>
   startDot (extname_loop path n st) = -1"
  by (induction n arbitrary: st) (auto simp: see_char_def mark_end_def)

lemma extname_no_dot: "CHR ''.'' \<notin> set path \<Longrightarrow> extname path = []"
proof -
  assume "CHR ''.'' \<notin> set path"
  then have "\<forall>j < length path. path ! j \<noteq> CHR ''.''"
    by (metis nth_mem)
  then have "startDot (extname_loop path (length path) ext_init) = -1"
    by (intro startDot_stays) (simp add: ext_init_def)
  then show ?thesis
    by (simp add: extname_def)
qed

lemma mark_end_twice: "mark_end j (mark_end i st) = mark_end i st"
  by (simp add: mark_end_def)

lemma scan_plain_chars:
  "startDot st = -1 \<Longrightarrow> m \<le> n \<Longrightarrow>
   \<forall>j. m \<le> j \<and> j < n \<longrightarrow> path ! j \<noteq> CHR ''.'' \<and> path ! j \<noteq> CHR ''/'' \<Longrightarrow>
   extname_loop path n st = extname_loop path m (if m < n then mark_end (n - 1) st else st)"
proof (induction n arbitrary: st)
  case 0
  then show ?case by simp
next
  case (Suc i)
  show ?case
  proof (cases "m = Suc i")
    case True
    then show ?thesis by simp
  next
    case False
    then have mi: "m \<le> i" using Suc.prems(2) by simp
    have c: "path ! i \<noteq> CHR ''.''" "path ! i \<noteq> CHR ''/''"
      using Suc.prems(3) mi by auto
    have sd: "startDot (mark_end i st) = -1"
      using Suc.prems(1) by (simp add: mark_end_def)
    have "see_char i (path ! i) (mark_end i st) = mark_end i st"
      using c sd by (simp add: see_char_def)
    then have "extname_loop path (Suc i) st = extname_loop path i (mark_end i st)"
      using c by simp
    also have "\<dots> = extname_loop path m
        (if m < i then mark_end (i - 1) (mark_end i st) else mark_end i st)"
      using Suc.IH [OF sd mi] Suc.prems(3) by simp
    also have "\<dots> = extname_loop path m (mark_end i st)"
      by (simp add: mark_end_twice)
    finally show ?thesis
      using mi by simp
  qed
qed

lemma scan_before_dot:
  "startDot st \<noteq> -1 \<Longrightarrow> endPos st \<noteq> -1 \<Longrightarrow> \<forall>j < m. path ! j \<noteq> CHR ''/'' \<Longrightarrow>
   extname_loop path m st =
     (if m = 0 then st
      else st\<lparr>preDotState := (if path ! 0 = CHR ''.'' then 1 else -1)\<rparr>)"
proof (induction m arbitrary: st)
  case 0
  then show ?case by simp
next
  case (Suc i)
  let ?st' = "st\<lparr>preDotState := (if path ! i = CHR ''.'' then 1 else -1)\<rparr>"
  have c: "path ! i \<noteq> CHR ''/''" using Suc.prems(3) by simp
  have "see_char i (path ! i) (mark_end i st) = ?st'"
    using Suc.prems(1,2) by (simp add: see_char_def mark_end_def)
  then have "extname_loop path (Suc i) st = extname_loop path i ?st'"
    using c by simp
  also have "\<dots> = (if i = 0 then ?st'
      else ?st'\<lparr>preDotState := (if path ! 0 = CHR ''.'' then 1 else -1)\<rparr>)"
    using Suc.IH [of ?st'] Suc.prems by simp
  finally show ?case
    by (cases "i = 0") simp_all
qed

lemma extname_loop_simple:
  assumes p: "path = pre @ CHR ''.'' # suf"
    and ns: "CHR ''/'' \<notin> set path" and nd: "CHR ''.'' \<notin> set suf"
  shows "extname_loop path (length path) ext_init =
           \<lparr>startDot = int (length pre), startPart = 0, endPos = int (length path),
            matchedSlash = False,
            preDotState = (if pre = [] then 0 else if hd pre = CHR ''.'' then 1 else -1)\<rparr>"
proof -
  let ?m = "length pre"
  let ?n = "length path"
  have n: "?n = Suc ?m + length suf" using p by simp
  have all_ns: "\<forall>j < ?n. path ! j \<noteq> CHR ''/''"
    using ns by (metis nth_mem)
  have suf_plain: "\<forall>j. Suc ?m \<le> j \<and> j < ?n \<longrightarrow> path ! j \<noteq> CHR ''.'' \<and> path ! j \<noteq> CHR ''/''"
  proof (intro allI impI)
    fix j assume j: "Suc ?m \<le> j \<and> j < ?n"
    then have "path ! j = suf ! (j - Suc ?m)"
      using p by (simp add: nth_append nth_Cons')
    moreover have "j - Suc ?m < length suf" using j n by auto
    ultimately have "path ! j \<in> set suf" by (metis nth_mem)
    then show "path ! j \<noteq> CHR ''.'' \<and> path ! j \<noteq> CHR ''/''"
      using nd all_ns j by auto
  qed
  have dot: "path ! ?m = CHR ''.''" using p by simp
  define st1 where "st1 = (if Suc ?m < ?n then mark_end (?n - 1) ext_init else ext_init)"
  have s1: "extname_loop path ?n ext_init = extname_loop path (Suc ?m) st1"
    unfolding st1_def
    by (rule scan_plain_chars) (use n suf_plain in \<open>simp_all add: ext_init_def\<close>)
  define st2 where "st2 = (mark_end ?m st1)\<lparr>startDot := int ?m\<rparr>"
  have sd1: "startDot st1 = -1"
    by (simp add: st1_def mark_end_def ext_init_def)
  have s2: "extname_loop path (Suc ?m) st1 = extname_loop path ?m st2"
    using dot sd1 by (simp add: st2_def see_char_def mark_end_def)
  have st2: "st2 = \<lparr>startDot = int ?m, startPart = 0, endPos = int ?n,
                    matchedSlash = False, preDotState = 0\<rparr>"
    using n by (auto simp: st2_def st1_def mark_end_def ext_init_def)
  have s3: "extname_loop path ?m st2 =
      (if ?m = 0 then st2 else st2\<lparr>preDotState := (if path ! 0 = CHR ''.'' then 1 else -1)\<rparr>)"
    by (rule scan_before_dot) (use all_ns n in \<open>simp_all add: st2\<close>)
  have hd: "pre \<noteq> [] \<Longrightarrow> path ! 0 = hd pre"
    using p by (cases pre) simp_all
  show ?thesis
    using s1 s2 s3 hd by (simp add: st2)
qed

lemma extname_simple:
  assumes "path = pre @ CHR ''.'' # suf"
    and "CHR ''/'' \<notin> set path" and "CHR ''.'' \<notin> set suf"
  shows "extname path = (if pre = [] \<or> path = ''..'' then [] else CHR ''.'' # suf)"
proof -
  have sl: "slice path (int (length pre)) (int (length path)) = CHR ''.'' # suf"
    using assms(1) by (simp add: slice_def)
  have dd: "path = ''..'' \<longleftrightarrow> pre = ''.'' \<and> suf = []"
  proof
    assume pp: "path = ''..''"
    have eq: "pre @ CHR ''.'' # suf = ''..''"
      using assms(1) pp by (rule subst)
    then have "length (pre @ CHR ''.'' # suf) = length ''..''"
      by (rule arg_cong)
    then have len: "length pre + length suf = 1"
      by simp
    have "pre \<noteq> []"
    proof
      assume "pre = []"
      then have "CHR ''.'' # suf = ''..''" using eq by simp
      then have "suf = ''.''" by simp
      then show False using assms(3) by simp
    qed
    then have l: "length pre = 1" and sf: "suf = []"
      using len by (cases pre; simp)+
    then obtain x where x: "pre = [x]"
      by (cases pre) auto
    have "[x, CHR ''.''] = ''..''"
      using eq x sf by simp
    then have "x = CHR ''.''" by simp
    then show "pre = ''.'' \<and> suf = []"
      using x sf by simp
  next
    assume "pre = ''.'' \<and> suf = []"
    then show "path = ''..''" using assms(1) by simp
  qed
  have one: "pre = ''.'' \<longleftrightarrow> pre \<noteq> [] \<and> hd pre = CHR ''.'' \<and> length pre = 1"
    by (cases pre) auto
  show ?thesis
    unfolding extname_def extname_loop_simple [OF assms] Let_def
    using sl dd one assms(1) by auto
qed

text \<open>
  A name whose only dot is its first character has no extension for \<^verbatim>\<open>path.extname\<close>,
  and neither has \<^verbatim>\<open>..\<close>.
\<close>

lemma extname_dotfile:
  "CHR ''/'' \<notin> set suf \<Longrightarrow> CHR ''.'' \<notin> set suf \<Longrightarrow> extname (CHR ''.'' # suf) = []"
  using extname_simple [of "CHR ''.'' # suf" "[]" suf] by simp

lemma extname_dotdot: "extname ''..'' = []"
  using extname_simple [of "''..''" "''.''" "[]"] by simp

lemma suffix_from_last_dot_split:
  "CHR ''.'' \<notin> set suf \<Longrightarrow> suffix_from_last_dot (pre @ CHR ''.'' # suf) = CHR ''.'' # suf"
proof -
  assume nd: "CHR ''.'' \<notin> set suf"
  have all: "takeWhile (\<lambda>c. c \<noteq> CHR ''.'') (rev suf) = rev suf"
    by (rule takeWhile_eq_all_conv [THEN iffD2]) (use nd in auto)
  have "takeWhile (\<lambda>c. c \<noteq> CHR ''.'') (rev (pre @ CHR ''.'' # suf))
          = takeWhile (\<lambda>c. c \<noteq> CHR ''.'') (rev suf @ CHR ''.'' # rev pre)"
    by simp
  also have "\<dots> = takeWhile (\<lambda>c. c \<noteq> CHR ''.'') (rev suf)"
    by (rule takeWhile_tail) simp
  finally have "rev (takeWhile (\<lambda>c. c \<noteq> CHR ''.'') (rev (pre @ CHR ''.'' # suf))) = suf"
    by (simp only: all rev_rev_ident)
  then show ?thesis
    unfolding suffix_from_last_dot_def by simp
qed

lemma only_leading_dot_split:
  "CHR ''.'' \<notin> set suf \<Longrightarrow> only_leading_dot (pre @ CHR ''.'' # suf) \<longleftrightarrow> pre = []"
  by (cases pre) (auto simp: only_leading_dot_def)

lemma extname_slash_free:
  assumes "CHR ''/'' \<notin> set name"
  shows "extname name =
           (if only_leading_dot name \<or> name = ''..'' then [] else suffix_from_last_dot name)"
proof (cases "CHR ''.'' \<in> set name")
  case False
  then show ?thesis
    by (simp add: extname_no_dot suffix_from_last_dot_def)
next
  case True
  then obtain pre suf where p: "name = pre @ CHR ''.'' # suf" and nd: "CHR ''.'' \<notin> set suf"
    by (auto dest: split_list_last)
  have "extname name = (if pre = [] \<or> name = ''..'' then [] else CHR ''.'' # suf)"
    by (rule extname_simple [OF p assms nd])
  moreover have "only_leading_dot name \<longleftrightarrow> pre = []"
    unfolding p by (rule only_leading_dot_split [OF nd])
  moreover have "suffix_from_last_dot name = CHR ''.'' # suf"
    unfolding p by (rule suffix_from_last_dot_split [OF nd])
  ultimately show ?thesis by simp
qed

subsection \<open>Stored names\<close>

lemma not_digit_chars:
  "\<not> is_digit (CHR ''_'')" "\<not> is_digit (CHR ''.'')" "\<not> is_digit (CHR ''/'')"
  by (simp_all add: is_digit_def)

lemma show_nat_no_char: "\<not> is_digit c \<Longrightarrow> c \<notin> set (show_nat n)"
  using show_nat_digits [of n] by blast

lemma fileType_no_slash: "CHR ''/'' \<notin> set (fileType f)"
  unfolding fileType_takeWhile by (auto dest: set_takeWhileD)

lemma fileType_allowed:
  "mimetype f \<in> set ALLOWED_FILE_TYPES \<Longrightarrow> fileType f = ''image'' \<or> fileType f = ''video''"
  unfolding fileType_takeWhile by (auto simp: ALLOWED_FILE_TYPES_def)

lemma filename_parts:
  "filename f now rnd =
     fileType f @ CHR ''_'' # show_nat now @ CHR ''_'' # show_nat rnd @ extname (originalname f)"
  by (simp add: filename_def)

lemma names_write_file: "names (write_file d name now) = insert name (names d)"
  by (auto simp: names_def write_file_def)

lemma upload_single_stored:
  "fst (upload_single uploadDir now rnd d (Some f)) = Inr (Some rf) \<Longrightarrow>
   mimetype f \<in> set ALLOWED_FILE_TYPES \<and> \<not> exceeds_limit (stream_size f) FILE_SIZE_LIMIT \<and>
   rf = \<lparr>rf_filename = filename f now rnd, rf_originalname = originalname f,
         rf_mimetype = mimetype f, rf_size = stream_size f,
         rf_path = uploadDir @ ''/'' @ filename f now rnd\<rparr> \<and>
   snd (upload_single uploadDir now rnd d (Some f)) = write_file d (filename f now rnd) now"
  by (auto simp: upload_single_def fileFilter_def Let_def split: if_splits)

lemma show_nat_examples:
  "show_nat 1700000000000 = ''1700000000000''"
  "show_nat 1700000000001 = ''1700000000001''"
  "show_nat 123456789 = ''123456789''"
  "show_nat 42 = ''42''"
  by (simp_all add: show_nat.simps digit_char_def)

lemmas eval_upload =
  upload_single_def fileFilter_def ALLOWED_FILE_TYPES_def exceeds_limit_def
  FILE_SIZE_LIMIT_def Let_def filename_def fileType_def first_or_undefined_def
  extname_def ext_init_def mark_end_def see_char_def slice_def show_nat_examples
  write_file_def names_def

text \<open>
  An accepted \<^verbatim>\<open>image/png\<close> upload whose original name is \<^verbatim>\<open>.png\<close> is stored without an
  extension, although the name has a dot and its suffix from that dot on is \<^verbatim>\<open>.png\<close>
  (against C4 as the spec states it).
\<close>

theorem storedName_of_dotfile:
  "fst (upload_single ''/srv/uploads'' 1700000000000 42 []
          (Some \<lparr>originalname = ''.png'', mimetype = ''image/png'', stream_size = 2048\<rparr>))
     = Inr (Some \<lparr>rf_filename = ''image_1700000000000_42'',
                   rf_originalname = ''.png'', rf_mimetype = ''image/png'',
                   rf_size = 2048,
                   rf_path = ''/srv/uploads/image_1700000000000_42''\<rparr>)
   \<and> suffix_from_last_dot ''.png'' = ''.png''
   \<and> ''image_1700000000000_42''
     \<noteq> takeWhile (\<lambda>c. c \<noteq> CHR ''/'') ''image/png'' @ ''_'' @ show_nat 1700000000000 @ ''_''
         @ show_nat 42 @ suffix_from_last_dot ''.png''"
  by (simp add: eval_upload suffix_from_last_dot_def)

text \<open>
  C4, as amended. The name under which an accepted upload is stored is the MIME type's
  segment before the first \<open>/\<close>, an underscore, the clock reading in decimal digits, an
  underscore, the random integer in decimal digits, and the extension \<^verbatim>\<open>path.extname\<close>
  finds in the original name. That extension is empty when the original name has no dot.
  For an original name without \<open>/\<close> it is the suffix from the last dot on, except that it
  is empty when the name's only dot is its first character and when the name is \<^verbatim>\<open>..\<close>.
  An accepted \<^verbatim>\<open>image/png\<close> upload named \<^verbatim>\<open>photo.png\<close> is stored as
  \<^verbatim>\<open>image_<digits>_<digits>.png\<close>.
\<close>

theorem storedName_composition:
  assumes "fst (upload_single uploadDir now rnd d (Some f)) = Inr (Some rf)"
  shows "rf_filename rf =
           takeWhile (\<lambda>c. c \<noteq> CHR ''/'') (mimetype f) @ ''_'' @ show_nat now @ ''_''
             @ show_nat rnd @ extname (originalname f)
       \<and> show_nat now \<noteq> [] \<and> (\<forall>c \<in> set (show_nat now). is_digit c)
       \<and> read_nat (show_nat now) = now
       \<and> show_nat rnd \<noteq> [] \<and> (\<forall>c \<in> set (show_nat rnd). is_digit c)
       \<and> read_nat (show_nat rnd) = rnd
       \<and> (CHR ''.'' \<notin> set (originalname f) \<longrightarrow> extname (originalname f) = [])
       \<and> (CHR ''/'' \<notin> set (originalname f) \<longrightarrow>
            extname (originalname f) =
              (if only_leading_dot (originalname f) \<or> originalname f = ''..'' then []
               else suffix_from_last_dot (originalname f)))
       \<and> (mimetype f = ''image/png'' \<and> originalname f = ''photo.png''
            \<longrightarrow> rf_filename rf = ''image_'' @ show_nat now @ ''_'' @ show_nat rnd @ ''.png'')"
proof -
  have name: "rf_filename rf = filename f now rnd"
    using upload_single_stored [OF assms] by simp
  have comp: "filename f now rnd =
           takeWhile (\<lambda>c. c \<noteq> CHR ''/'') (mimetype f) @ ''_'' @ show_nat now @ ''_''
             @ show_nat rnd @ extname (originalname f)"
    by (simp add: filename_parts fileType_takeWhile)
  have ext: "CHR ''/'' \<notin> set (originalname f) \<longrightarrow>
            extname (originalname f) =
              (if only_leading_dot (originalname f) \<or> originalname f = ''..'' then []
               else suffix_from_last_dot (originalname f))"
    using extname_slash_free by blast
  have png: "extname ''photo.png'' = ''.png''"
    using extname_simple [of "''photo.png''" "''photo''" "''png''"] by simp
  have ex: "mimetype f = ''image/png'' \<and> originalname f = ''photo.png''
            \<longrightarrow> rf_filename rf = ''image_'' @ show_nat now @ ''_'' @ show_nat rnd @ ''.png''"
    using name comp png by simp
  have first: "rf_filename rf =
           takeWhile (\<lambda>c. c \<noteq> CHR ''/'') (mimetype f) @ ''_'' @ show_nat now @ ''_''
             @ show_nat rnd @ extname (originalname f)"
    using name comp by simp
  have nodot: "CHR ''.'' \<notin> set (originalname f) \<longrightarrow> extname (originalname f) = []"
    using extname_no_dot by blast
  show ?thesis
    using first show_nat_nonempty [of now] show_nat_digits [of now] read_show_nat [of now]
      show_nat_nonempty [of rnd] show_nat_digits [of rnd] read_show_nat [of rnd] nodot ext ex
    by - (intro conjI; assumption)
qed

theorem storedName_composition_witness:
  "fst (upload_single ''/srv/uploads'' 1700000000000 123456789 []
          (Some \<lparr>originalname = ''photo.png'', mimetype = ''image/png'', stream_size = 2048\<rparr>))
     = Inr (Some \<lparr>rf_filename = ''image_1700000000000_123456789.png'',
                   rf_originalname = ''photo.png'', rf_mimetype = ''image/png'',
                   rf_size = 2048,
                   rf_path = ''/srv/uploads/image_1700000000000_123456789.png''\<rparr>)
   \<and> ''image_1700000000000_123456789.png''
     = takeWhile (\<lambda>c. c \<noteq> CHR ''/'') ''image/png'' @ ''_'' @ show_nat 1700000000000 @ ''_''
         @ show_nat 123456789 @ extname ''photo.png''
   \<and> extname ''photo.png'' = suffix_from_last_dot ''photo.png''
   \<and> suffix_from_last_dot ''photo.png'' = ''.png''"
proof -
  have h: "fst (upload_single ''/srv/uploads'' 1700000000000 123456789 []
          (Some \<lparr>originalname = ''photo.png'', mimetype = ''image/png'', stream_size = 2048\<rparr>))
     = Inr (Some \<lparr>rf_filename = ''image_1700000000000_123456789.png'',
                   rf_originalname = ''photo.png'', rf_mimetype = ''image/png'',
                   rf_size = 2048,
                   rf_path = ''/srv/uploads/image_1700000000000_123456789.png''\<rparr>)"
    by (simp add: eval_upload)
  show ?thesis
    using h storedName_composition [OF h]
    by (simp add: show_nat_examples suffix_from_last_dot_def only_leading_dot_def)
qed

text \<open>
  Two uploads handled in the same millisecond that draw the same random integer, with the
  same type tag and extension, are given the same name: the second is accepted and written
  over the first (against C7 as the spec states it).
\<close>

theorem storedName_collision:
  "upload_single ''/srv/uploads'' 1700000000000 42 []
     (Some \<lparr>originalname = ''photo.png'', mimetype = ''image/png'', stream_size = 2048\<rparr>)
   = (Inr (Some \<lparr>rf_filename = ''image_1700000000000_42.png'',
                  rf_originalname = ''photo.png'', rf_mimetype = ''image/png'',
                  rf_size = 2048,
                  rf_path = ''/srv/uploads/image_1700000000000_42.png''\<rparr>),
      [(''image_1700000000000_42.png'', \<lparr>birthtimeMs = 1700000000000\<rparr>)])
   \<and> upload_single ''/srv/uploads'' 1700000000000 42
       [(''image_1700000000000_42.png'', \<lparr>birthtimeMs = 1700000000000\<rparr>)]
       (Some \<lparr>originalname = ''holiday.png'', mimetype = ''image/png'', stream_size = 4096\<rparr>)
   = (Inr (Some \<lparr>rf_filename = ''image_1700000000000_42.png'',
                  rf_originalname = ''holiday.png'', rf_mimetype = ''image/png'',
                  rf_size = 4096,
                  rf_path = ''/srv/uploads/image_1700000000000_42.png''\<rparr>),
      [(''image_1700000000000_42.png'', \<lparr>birthtimeMs = 1700000000000\<rparr>)])"
  by (simp add: eval_upload)

text \<open>
  C7, as amended. Two accepted uploads are given the same name exactly when they agree in
  type tag, clock reading, random integer and extension; uploads that differ in one of
  the four get different names. The composed name is never compared with the entries the
  directory already has.
\<close>

theorem storedName_distinct_when_parts_differ:
  assumes "mimetype f1 \<in> set ALLOWED_FILE_TYPES" and "mimetype f2 \<in> set ALLOWED_FILE_TYPES"
  shows "filename f1 now1 rnd1 = filename f2 now2 rnd2 \<longleftrightarrow>
           fileType f1 = fileType f2 \<and> now1 = now2 \<and> rnd1 = rnd2 \<and>
           extname (originalname f1) = extname (originalname f2)"
proof
  assume eq: "filename f1 now1 rnd1 = filename f2 now2 rnd2"
  have t1: "CHR ''_'' \<notin> set (fileType f1)" and t2: "CHR ''_'' \<notin> set (fileType f2)"
    using fileType_allowed [OF assms(1)] fileType_allowed [OF assms(2)] by auto
  have e1: "fileType f1 = fileType f2"
    and r1: "show_nat now1 @ CHR ''_'' # show_nat rnd1 @ extname (originalname f1)
           = show_nat now2 @ CHR ''_'' # show_nat rnd2 @ extname (originalname f2)"
    using split_at_first [OF eq [unfolded filename_parts] t1 t2] by simp_all
  have e2: "show_nat now1 = show_nat now2"
    and r2: "show_nat rnd1 @ extname (originalname f1)
           = show_nat rnd2 @ extname (originalname f2)"
    using split_at_first [OF r1] not_digit_chars(1) show_nat_no_char by simp_all
  have nd: "extname p = [] \<or> \<not> is_digit (hd (extname p))" for p
    using extname_shape [of p] not_digit_chars(2) by auto
  have e3: "show_nat rnd1 = show_nat rnd2 \<and> extname (originalname f1) = extname (originalname f2)"
    using split_at_nondigit [OF r2 show_nat_digits show_nat_digits nd nd] .
  show "fileType f1 = fileType f2 \<and> now1 = now2 \<and> rnd1 = rnd2 \<and>
        extname (originalname f1) = extname (originalname f2)"
    using e1 e2 e3 show_nat_inj by blast
next
  assume "fileType f1 = fileType f2 \<and> now1 = now2 \<and> rnd1 = rnd2 \<and>
          extname (originalname f1) = extname (originalname f2)"
  then show "filename f1 now1 rnd1 = filename f2 now2 rnd2"
    by (simp add: filename_parts)
qed

theorem storedName_distinct_when_parts_differ_witness:
  "mimetype \<lparr>originalname = ''photo.png'', mimetype = ''image/png'', stream_size = 2048\<rparr>
     \<in> set ALLOWED_FILE_TYPES
   \<and> mimetype \<lparr>originalname = ''holiday.png'', mimetype = ''image/png'', stream_size = 4096\<rparr>
     \<in> set ALLOWED_FILE_TYPES
   \<and> filename \<lparr>originalname = ''photo.png'', mimetype = ''image/png'', stream_size = 2048\<rparr>
        1700000000000 42
     \<noteq> filename \<lparr>originalname = ''holiday.png'', mimetype = ''image/png'', stream_size = 4096\<rparr>
        1700000000001 42"
proof -
  have a: "mimetype \<lparr>originalname = ''photo.png'', mimetype = ''image/png'', stream_size = 2048\<rparr>
     \<in> set ALLOWED_FILE_TYPES"
    and b: "mimetype \<lparr>originalname = ''holiday.png'', mimetype = ''image/png'', stream_size = 4096\<rparr>
     \<in> set ALLOWED_FILE_TYPES"
    by (simp_all add: ALLOWED_FILE_TYPES_def)
  show ?thesis
    using a b storedName_distinct_when_parts_differ [OF a b, of 1700000000000 42 1700000000001 42]
    by simp
qed

text \<open>
  C9. Whatever the client sends as file name and MIME type, the composed name contains no
  \<open>/\<close> and is neither empty nor \<^verbatim>\<open>.\<close> nor \<^verbatim>\<open>..\<close>; an accepted upload is written to
  \<^verbatim>\<open>uploadDir/name\<close> and adds exactly that entry to the uploads directory.
\<close>

theorem storedName_stays_in_root:
  "CHR ''/'' \<notin> set (filename f now rnd)
   \<and> filename f now rnd \<notin> {[], ''.'', ''..''}
   \<and> (fst (upload_single uploadDir now rnd d (Some f)) = Inr (Some rf)
        \<longrightarrow> rf_filename rf = filename f now rnd
          \<and> rf_path rf = uploadDir @ ''/'' @ filename f now rnd
          \<and> names (snd (upload_single uploadDir now rnd d (Some f)))
              = insert (filename f now rnd) (names d))"
proof -
  have a: "CHR ''/'' \<notin> set (filename f now rnd)"
    using fileType_no_slash [of f] extname_no_slash [of "originalname f"]
      show_nat_no_char [OF not_digit_chars(3)]
    by (simp add: filename_parts)
  have "CHR ''_'' \<in> set (filename f now rnd)"
    by (simp add: filename_parts)
  then have b: "filename f now rnd \<notin> {[], ''.'', ''..''}"
    by auto
  have c: "fst (upload_single uploadDir now rnd d (Some f)) = Inr (Some rf)
        \<longrightarrow> rf_filename rf = filename f now rnd
          \<and> rf_path rf = uploadDir @ ''/'' @ filename f now rnd
          \<and> names (snd (upload_single uploadDir now rnd d (Some f)))
              = insert (filename f now rnd) (names d)"
  proof
    assume "fst (upload_single uploadDir now rnd d (Some f)) = Inr (Some rf)"
    from upload_single_stored [OF this]
    show "rf_filename rf = filename f now rnd
          \<and> rf_path rf = uploadDir @ ''/'' @ filename f now rnd
          \<and> names (snd (upload_single uploadDir now rnd d (Some f)))
              = insert (filename f now rnd) (names d)"
      by (simp add: names_write_file)
  qed
  show ?thesis
    using a b c by blast
qed

theorem storedName_stays_in_root_witness:
  "fst (upload_single ''/srv/uploads'' 1700000000000 42 []
          (Some \<lparr>originalname = ''../../etc/passwd.png'', mimetype = ''image/png'',
                 stream_size = 2048\<rparr>))
     = Inr (Some \<lparr>rf_filename = ''image_1700000000000_42.png'',
                   rf_originalname = ''../../etc/passwd.png'', rf_mimetype = ''image/png'',
                   rf_size = 2048,
                   rf_path = ''/srv/uploads/image_1700000000000_42.png''\<rparr>)
   \<and> CHR ''/'' \<notin> set ''image_1700000000000_42.png''
   \<and> names (snd (upload_single ''/srv/uploads'' 1700000000000 42 []
          (Some \<lparr>originalname = ''../../etc/passwd.png'', mimetype = ''image/png'',
                 stream_size = 2048\<rparr>)))
     = {''image_1700000000000_42.png''}"
proof -
  have h: "fst (upload_single ''/srv/uploads'' 1700000000000 42 []
          (Some \<lparr>originalname = ''../../etc/passwd.png'', mimetype = ''image/png'',
                 stream_size = 2048\<rparr>))
     = Inr (Some \<lparr>rf_filename = ''image_1700000000000_42.png'',
                   rf_originalname = ''../../etc/passwd.png'', rf_mimetype = ''image/png'',
                   rf_size = 2048,
                   rf_path = ''/srv/uploads/image_1700000000000_42.png''\<rparr>)"
    by (simp add: eval_upload)
  show ?thesis
    using h storedName_stays_in_root
      [of "\<lparr>originalname = ''../../etc/passwd.png'', mimetype = ''image/png'',
            stream_size = 2048\<rparr>" 1700000000000 42 "''/srv/uploads''" "[]"
          "\<lparr>rf_filename = ''image_1700000000000_42.png'',
            rf_originalname = ''../../etc/passwd.png'', rf_mimetype = ''image/png'',
            rf_size = 2048,
            rf_path = ''/srv/uploads/image_1700000000000_42.png''\<rparr>"]
    by (simp add: names_def)
qed

subsection \<open>The cleanup\<close>

lemma map_of_names: "map_of d name = Some st \<Longrightarrow> name \<in> names d"
  by (auto simp: names_def dest: map_of_SomeD intro: rev_image_eqI)

lemma map_of_names_iff: "name \<in> names d \<longleftrightarrow> map_of d name \<noteq> None"
  by (simp add: names_def map_of_eq_None_iff)

lemma map_of_filter_fst:
  "map_of (filter (\<lambda>e. P (fst e)) d) k = (if P k then map_of d k else None)"
  by (induction d) auto

lemma map_of_remove_file:
  "map_of (remove_file d file) k = (if k = file then None else map_of d k)"
  using map_of_filter_fst [of "\<lambda>n. n \<noteq> file" d k] by (simp add: remove_file_def)

lemma cleanup_file_fst:
  "fst (cleanup_file io now file (d, l)) =
     (if deleted_by io now d file then remove_file d file else d)"
  by (auto simp: cleanup_file_def deleted_by_def stat_def unlink_def map_of_names
           split: option.splits sum.splits)

lemma cleanup_file_snd:
  "snd (cleanup_file io now file (d, l)) = l @ log_of io now d file"
  by (auto simp: cleanup_file_def log_of_def split: sum.splits)

lemma deleted_by_remove_file:
  "k \<noteq> file \<Longrightarrow> deleted_by io now (remove_file d file) k = deleted_by io now d k"
  by (simp add: deleted_by_def map_of_remove_file)

lemma log_of_remove_file:
  "k \<noteq> file \<Longrightarrow> log_of io now (remove_file d file) k = log_of io now d k"
  by (simp add: log_of_def cleanup_file_def stat_def unlink_def map_of_remove_file
        map_of_names_iff split: option.splits sum.splits)

lemma forEach_file_fst:
  "fst (forEach_file io now files (d, l)) =
     filter (\<lambda>e. \<not> (fst e \<in> set files \<and> deleted_by io now d (fst e))) d"
proof (induction files arbitrary: d l)
  case Nil
  then show ?case by simp
next
  case (Cons f files)
  obtain d1 l1 where c: "cleanup_file io now f (d, l) = (d1, l1)"
    by (cases "cleanup_file io now f (d, l)")
  have d1: "d1 = (if deleted_by io now d f then remove_file d f else d)"
    using cleanup_file_fst [of io now f d l] c by simp
  have "fst (forEach_file io now (f # files) (d, l)) =
          filter (\<lambda>e. \<not> (fst e \<in> set files \<and> deleted_by io now d1 (fst e))) d1"
    using Cons.IH [of d1 l1] c by simp
  also have "\<dots> = filter (\<lambda>e. \<not> (fst e \<in> set (f # files) \<and> deleted_by io now d (fst e))) d"
  proof (cases "deleted_by io now d f")
    case True
    then have "d1 = filter (\<lambda>e. fst e \<noteq> f) d"
      using d1 by (simp add: remove_file_def)
    moreover have "\<And>k. k \<noteq> f \<Longrightarrow> deleted_by io now d1 k = deleted_by io now d k"
      using d1 True by (simp add: deleted_by_remove_file)
    ultimately show ?thesis
      using True by (auto intro!: filter_cong) metis
  next
    case False
    then show ?thesis
      using d1 by (auto intro!: filter_cong)
  qed
  finally show ?case .
qed

lemma forEach_file_snd:
  "distinct files \<Longrightarrow>
   snd (forEach_file io now files (d, l)) = l @ concat (map (log_of io now d) files)"
proof (induction files arbitrary: d l)
  case Nil
  then show ?case by simp
next
  case (Cons f files)
  obtain d1 l1 where c: "cleanup_file io now f (d, l) = (d1, l1)"
    by (cases "cleanup_file io now f (d, l)")
  have d1: "d1 = (if deleted_by io now d f then remove_file d f else d)"
    using cleanup_file_fst [of io now f d l] c by simp
  have l1: "l1 = l @ log_of io now d f"
    using cleanup_file_snd [of io now f d l] c by simp
  have same: "map (log_of io now d1) files = map (log_of io now d) files"
  proof (rule map_cong [OF refl])
    fix k assume "k \<in> set files"
    then have "k \<noteq> f" using Cons.prems by auto
    then show "log_of io now d1 k = log_of io now d k"
      using d1 by (simp add: log_of_remove_file)
  qed
  have "snd (forEach_file io now (f # files) (d, l)) =
          l1 @ concat (map (log_of io now d1) files)"
    using Cons.IH [of d1 l1] Cons.prems c by simp
  then show ?case
    using l1 same by simp
qed

lemma cleanup_fst:
  "readdir_fault io = None \<Longrightarrow>
   fst (cleanup io now d) = filter (\<lambda>e. \<not> deleted_by io now d (fst e)) d"
  by (auto simp: cleanup_def readdir_def forEach_file_fst intro!: filter_cong)

lemma cleanup_snd:
  "readdir_fault io = None \<Longrightarrow> distinct (map fst d) \<Longrightarrow>
   snd (cleanup io now d) = concat (map (log_of io now d) (map fst d))"
  by (simp add: cleanup_def readdir_def forEach_file_snd)

lemma names_cleanup:
  "readdir_fault io = None \<Longrightarrow>
   names (fst (cleanup io now d)) = {n \<in> names d. \<not> deleted_by io now d n}"
  by (auto simp: cleanup_fst names_def)

lemma map_of_distinct_entry:
  "distinct (map fst d) \<Longrightarrow> (name, st) \<in> set d \<Longrightarrow> map_of d name = Some st"
  by simp

lemma in_names: "(name, st) \<in> set d \<Longrightarrow> name \<in> names d"
  by (auto simp: names_def intro: rev_image_eqI)

lemma deleted_by_entry:
  "distinct (map fst d) \<Longrightarrow> (name, st) \<in> set d \<Longrightarrow>
   deleted_by io now d name \<longleftrightarrow>
     stat_fault io name = None \<and> unlink_fault io name = None \<and>
     real now - birthtimeMs st > real UPLOAD_CLEANUP_INTERVAL"
  by (simp add: deleted_by_def)

lemma log_of_entry:
  "distinct (map fst d) \<Longrightarrow> (name, st) \<in> set d \<Longrightarrow>
   log_of io now d name =
     (case stat_fault io name of
        Some err \<Rightarrow> [ErrorGettingFileStats err]
      | None \<Rightarrow>
          if real now - birthtimeMs st > real UPLOAD_CLEANUP_INTERVAL then
            (case unlink_fault io name of
               Some err \<Rightarrow> [ErrorDeletingOldFile err]
             | None \<Rightarrow> [DeletedOldFile name])
          else [])"
  by (simp add: log_of_def cleanup_file_def stat_def unlink_def in_names split: option.splits)

lemma log_of_in_cleanup:
  assumes "readdir_fault io = None" "distinct (map fst d)" "(name, st) \<in> set d"
  shows "set (log_of io now d name) \<subseteq> set (snd (cleanup io now d))"
proof -
  have "name \<in> set (map fst d)"
    using assms(3) by (auto intro: rev_image_eqI)
  then show ?thesis
    using assms(1,2) by (auto simp: cleanup_snd)
qed

text \<open>
  C5. With the listing, the \<^verbatim>\<open>stat\<close> and the \<^verbatim>\<open>unlink\<close> of an entry succeeding, a cleanup
  pass removes the entry if and only if \<open>now - birthtimeMs\<close> is strictly greater than
  24 hours in milliseconds: an entry born 25 hours before the pass is removed, one born
  1 hour before it stays. Faults on other entries make no difference.
\<close>

theorem cleanup_deletes_iff_older_than_a_day:
  assumes "readdir_fault io = None"
    and "stat_fault io name = None" and "unlink_fault io name = None"
    and "distinct (map fst d)" and "(name, st) \<in> set d"
  shows "(name \<notin> names (fst (cleanup io now d))
            \<longleftrightarrow> real now - birthtimeMs st > 24 * 60 * 60 * 1000)
       \<and> (birthtimeMs st = real now - 25 * 60 * 60 * 1000
            \<longrightarrow> name \<notin> names (fst (cleanup io now d)))
       \<and> (birthtimeMs st = real now - 1 * 60 * 60 * 1000
            \<longrightarrow> name \<in> names (fst (cleanup io now d)))"
proof -
  have "name \<notin> names (fst (cleanup io now d))
          \<longleftrightarrow> real now - birthtimeMs st > real UPLOAD_CLEANUP_INTERVAL"
    using assms by (simp add: names_cleanup in_names deleted_by_entry)
  then show ?thesis
    by (auto simp: UPLOAD_CLEANUP_INTERVAL_def)
qed

theorem cleanup_deletes_iff_older_than_a_day_witness:
  "distinct (map fst [(''image_1_2.png'', \<lparr>birthtimeMs = 0\<rparr>),
                      (''video_3_4.mp4'', \<lparr>birthtimeMs = 86400000\<rparr>)])
   \<and> ''image_1_2.png'' \<notin> names (fst (cleanup
         \<lparr>readdir_fault = None, stat_fault = (\<lambda>_. None), unlink_fault = (\<lambda>_. None)\<rparr>
         90000000
         [(''image_1_2.png'', \<lparr>birthtimeMs = 0\<rparr>),
          (''video_3_4.mp4'', \<lparr>birthtimeMs = 86400000\<rparr>)]))
   \<and> ''video_3_4.mp4'' \<in> names (fst (cleanup
         \<lparr>readdir_fault = None, stat_fault = (\<lambda>_. None), unlink_fault = (\<lambda>_. None)\<rparr>
         90000000
         [(''image_1_2.png'', \<lparr>birthtimeMs = 0\<rparr>),
          (''video_3_4.mp4'', \<lparr>birthtimeMs = 86400000\<rparr>)]))"
  using cleanup_deletes_iff_older_than_a_day
          [of "\<lparr>readdir_fault = None, stat_fault = (\<lambda>_. None), unlink_fault = (\<lambda>_. None)\<rparr>"
              "''image_1_2.png''"
              "[(''image_1_2.png'', \<lparr>birthtimeMs = 0\<rparr>),
                (''video_3_4.mp4'', \<lparr>birthtimeMs = 86400000\<rparr>)]"
              "\<lparr>birthtimeMs = 0\<rparr>" 90000000]
        cleanup_deletes_iff_older_than_a_day
          [of "\<lparr>readdir_fault = None, stat_fault = (\<lambda>_. None), unlink_fault = (\<lambda>_. None)\<rparr>"
              "''video_3_4.mp4''"
              "[(''image_1_2.png'', \<lparr>birthtimeMs = 0\<rparr>),
                (''video_3_4.mp4'', \<lparr>birthtimeMs = 86400000\<rparr>)]"
              "\<lparr>birthtimeMs = 86400000\<rparr>" 90000000]
  by simp

text \<open>
  C6. An entry whose \<^verbatim>\<open>stat\<close> fails, or which is old and whose \<^verbatim>\<open>unlink\<close> fails, is
  logged with its error and stays in the directory; every other entry of the listing that
  has no fault of its own is still examined: it is removed, and logged as deleted, exactly
  when it is older than the interval.
\<close>

theorem cleanup_faults_are_isolated:
  assumes "readdir_fault io = None" and "distinct (map fst d)" and "(bad, st) \<in> set d"
  shows "(stat_fault io bad = Some err
            \<longrightarrow> ErrorGettingFileStats err \<in> set (snd (cleanup io now d))
              \<and> bad \<in> names (fst (cleanup io now d)))
       \<and> (stat_fault io bad = None \<and> unlink_fault io bad = Some err
          \<and> real now - birthtimeMs st > real UPLOAD_CLEANUP_INTERVAL
            \<longrightarrow> ErrorDeletingOldFile err \<in> set (snd (cleanup io now d))
              \<and> bad \<in> names (fst (cleanup io now d)))
       \<and> (\<forall>(name, s) \<in> set d.
            name \<noteq> bad \<and> stat_fault io name = None \<and> unlink_fault io name = None
            \<longrightarrow> (name \<notin> names (fst (cleanup io now d))
                   \<longleftrightarrow> real now - birthtimeMs s > real UPLOAD_CLEANUP_INTERVAL)
                \<and> (DeletedOldFile name \<in> set (snd (cleanup io now d))
                   \<longleftrightarrow> real now - birthtimeMs s > real UPLOAD_CLEANUP_INTERVAL))"
proof (intro conjI impI ballI)
  assume "stat_fault io bad = Some err"
  then show "ErrorGettingFileStats err \<in> set (snd (cleanup io now d))"
    using log_of_in_cleanup [OF assms, of now] by (simp add: log_of_entry [OF assms(2,3)])
next
  assume "stat_fault io bad = Some err"
  then show "bad \<in> names (fst (cleanup io now d))"
    using assms by (simp add: names_cleanup in_names deleted_by_entry)
next
  assume a: "stat_fault io bad = None \<and> unlink_fault io bad = Some err
          \<and> real now - birthtimeMs st > real UPLOAD_CLEANUP_INTERVAL"
  then show "ErrorDeletingOldFile err \<in> set (snd (cleanup io now d))"
    using log_of_in_cleanup [OF assms, of now] by (simp add: log_of_entry [OF assms(2,3)])
  from a show "bad \<in> names (fst (cleanup io now d))"
    using assms by (simp add: names_cleanup in_names deleted_by_entry)
next
  fix e assume e: "e \<in> set d"
  obtain name s where ns: "e = (name, s)" by (cases e)
  have in_d: "(name, s) \<in> set d" using e ns by simp
  have dir: "name \<noteq> bad \<and> stat_fault io name = None \<and> unlink_fault io name = None \<longrightarrow>
        (name \<notin> names (fst (cleanup io now d))
           \<longleftrightarrow> real now - birthtimeMs s > real UPLOAD_CLEANUP_INTERVAL)"
    using assms(1,2) in_d by (simp add: names_cleanup in_names deleted_by_entry)
  have "snd (cleanup io now d) = concat (map (log_of io now d) (map fst d))"
    using assms(1,2) by (rule cleanup_snd)
  then have "DeletedOldFile name \<in> set (snd (cleanup io now d))
       \<longleftrightarrow> (\<exists>k \<in> set d. DeletedOldFile name \<in> set (log_of io now d (fst k)))"
    by auto
  also have "\<dots> \<longleftrightarrow> DeletedOldFile name \<in> set (log_of io now d name)"
  proof
    assume "\<exists>k \<in> set d. DeletedOldFile name \<in> set (log_of io now d (fst k))"
    then obtain k where k: "k \<in> set d" "DeletedOldFile name \<in> set (log_of io now d (fst k))"
      by blast
    obtain kn ks where kk: "k = (kn, ks)" by (cases k)
    have "DeletedOldFile name \<in> set (log_of io now d kn)" using k kk by simp
    then have "kn = name"
      using log_of_entry [OF assms(2), of kn ks io now] k(1) kk
      by (auto split: option.splits if_splits)
    then show "DeletedOldFile name \<in> set (log_of io now d name)"
      using k kk by simp
  next
    assume "DeletedOldFile name \<in> set (log_of io now d name)"
    then show "\<exists>k \<in> set d. DeletedOldFile name \<in> set (log_of io now d (fst k))"
      using in_d by force
  qed
  finally have lg: "stat_fault io name = None \<and> unlink_fault io name = None \<longrightarrow>
        (DeletedOldFile name \<in> set (snd (cleanup io now d))
           \<longleftrightarrow> real now - birthtimeMs s > real UPLOAD_CLEANUP_INTERVAL)"
    using log_of_entry [OF assms(2) in_d, of io now] by simp
  show "case e of (name, s) \<Rightarrow>
          name \<noteq> bad \<and> stat_fault io name = None \<and> unlink_fault io name = None \<longrightarrow>
          (name \<notin> names (fst (cleanup io now d))
             \<longleftrightarrow> real now - birthtimeMs s > real UPLOAD_CLEANUP_INTERVAL)
          \<and> (DeletedOldFile name \<in> set (snd (cleanup io now d))
             \<longleftrightarrow> real now - birthtimeMs s > real UPLOAD_CLEANUP_INTERVAL)"
    using dir lg ns by simp
qed

theorem cleanup_faults_are_isolated_witness:
  "distinct (map fst [(''image_5_6.gif'', \<lparr>birthtimeMs = 0\<rparr>),
                      (''image_1_2.png'', \<lparr>birthtimeMs = 0\<rparr>),
                      (''video_3_4.mp4'', \<lparr>birthtimeMs = 86400000\<rparr>)])
   \<and> ErrorGettingFileStats (Error ''EACCES'') \<in> set (snd (cleanup
         \<lparr>readdir_fault = None,
          stat_fault = (\<lambda>n. if n = ''image_5_6.gif'' then Some (Error ''EACCES'') else None),
          unlink_fault = (\<lambda>_. None)\<rparr>
         90000000
         [(''image_5_6.gif'', \<lparr>birthtimeMs = 0\<rparr>),
          (''image_1_2.png'', \<lparr>birthtimeMs = 0\<rparr>),
          (''video_3_4.mp4'', \<lparr>birthtimeMs = 86400000\<rparr>)]))
   \<and> names (fst (cleanup
         \<lparr>readdir_fault = None,
          stat_fault = (\<lambda>n. if n = ''image_5_6.gif'' then Some (Error ''EACCES'') else None),
          unlink_fault = (\<lambda>_. None)\<rparr>
         90000000
         [(''image_5_6.gif'', \<lparr>birthtimeMs = 0\<rparr>),
          (''image_1_2.png'', \<lparr>birthtimeMs = 0\<rparr>),
          (''video_3_4.mp4'', \<lparr>birthtimeMs = 86400000\<rparr>)]))
     = {''image_5_6.gif'', ''video_3_4.mp4''}"
  using cleanup_faults_are_isolated
          [of "\<lparr>readdir_fault = None,
                stat_fault = (\<lambda>n. if n = ''image_5_6.gif'' then Some (Error ''EACCES'') else None),
                unlink_fault = (\<lambda>_. None)\<rparr>"
              "[(''image_5_6.gif'', \<lparr>birthtimeMs = 0\<rparr>),
                (''image_1_2.png'', \<lparr>birthtimeMs = 0\<rparr>),
                (''video_3_4.mp4'', \<lparr>birthtimeMs = 86400000\<rparr>)]"
              "''image_5_6.gif''" "\<lparr>birthtimeMs = 0\<rparr>" "Error ''EACCES''" 90000000]
  by (simp add: cleanup_def readdir_def cleanup_file_def stat_def unlink_def names_def
        remove_file_def UPLOAD_CLEANUP_INTERVAL_def)

lemma deleted_line_origin:
  "DeletedOldFile n \<in> set (snd (forEach_file io now files (d, l))) \<Longrightarrow>
   DeletedOldFile n \<in> set l \<or> deleted_by io now d n"
proof (induction files arbitrary: d l)
  case Nil
  then show ?case by simp
next
  case (Cons f files)
  obtain d1 l1 where c: "cleanup_file io now f (d, l) = (d1, l1)"
    by (cases "cleanup_file io now f (d, l)")
  have d1: "d1 = (if deleted_by io now d f then remove_file d f else d)"
    using cleanup_file_fst [of io now f d l] c by simp
  have l1: "l1 = l @ log_of io now d f"
    using cleanup_file_snd [of io now f d l] c by simp
  have "DeletedOldFile n \<in> set l1 \<or> deleted_by io now d1 n"
    using Cons.IH [of d1 l1] Cons.prems c by simp
  moreover have "deleted_by io now d1 n \<Longrightarrow> deleted_by io now d n"
    using d1 by (auto simp: deleted_by_def map_of_remove_file split: if_splits)
  moreover have "DeletedOldFile n \<in> set (log_of io now d f) \<Longrightarrow> deleted_by io now d n"
    by (auto simp: log_of_def cleanup_file_def deleted_by_def stat_def unlink_def
             split: option.splits sum.splits if_splits)
  ultimately show ?case
    using l1 by auto
qed

text \<open>
  C8. A second cleanup pass right after the first (same clock reading, the file system
  answering as before, nothing added) leaves the directory as the first pass left it and
  logs no deletion.
\<close>

theorem cleanup_idempotent:
  "fst (cleanup io now (fst (cleanup io now d))) = fst (cleanup io now d)
   \<and> (\<forall>n. DeletedOldFile n \<notin> set (snd (cleanup io now (fst (cleanup io now d)))))"
proof (cases "readdir_fault io")
  case (Some err)
  then show ?thesis by (simp add: cleanup_def readdir_def)
next
  case None
  let ?d' = "fst (cleanup io now d)"
  have d': "?d' = filter (\<lambda>e. \<not> deleted_by io now d (fst e)) d"
    using None by (rule cleanup_fst)
  have keep: "\<not> deleted_by io now ?d' n" for n
  proof -
    have m: "map_of ?d' n = (if \<not> deleted_by io now d n then map_of d n else None)"
      unfolding d' by (rule map_of_filter_fst [of "\<lambda>k. \<not> deleted_by io now d k"])
    show ?thesis
    proof (cases "deleted_by io now d n")
      case True
      then have "map_of ?d' n = None" using m by simp
      then show ?thesis by (simp add: deleted_by_def)
    next
      case False
      then have "map_of ?d' n = map_of d n" using m by simp
      then have "deleted_by io now ?d' n = deleted_by io now d n"
        by (simp add: deleted_by_def)
      then show ?thesis using False by simp
    qed
  qed
  have "fst (cleanup io now ?d') = filter (\<lambda>e. \<not> deleted_by io now ?d' (fst e)) ?d'"
    using None by (rule cleanup_fst)
  then have one: "fst (cleanup io now ?d') = ?d'"
    using keep by simp
  have "DeletedOldFile n \<notin> set (snd (cleanup io now ?d'))" for n
    using deleted_line_origin [of n io now "map fst ?d'" ?d' "[]"] keep [of n] None
    by (auto simp: cleanup_def readdir_def)
  then show ?thesis
    using one by blast
qed

text \<open>
  C10. When listing the uploads directory fails, the pass logs the error and ends with
  the directory untouched; it returns normally, so the timer's later firings run as they
  would have without it.
\<close>

theorem readdir_failure_ends_pass:
  "readdir_fault io = Some err \<Longrightarrow>
   cleanup io now d = (d, [ErrorReadingUploadsDirectory err])
   \<and> run_interval ((io, now) # ticks) d
     = (fst (run_interval ticks d),
        ErrorReadingUploadsDirectory err # snd (run_interval ticks d))"
  by (simp add: cleanup_def readdir_def split: prod.splits)

theorem readdir_failure_ends_pass_witness:
  "cleanup \<lparr>readdir_fault = Some (Error ''EACCES''), stat_fault = (\<lambda>_. None),
             unlink_fault = (\<lambda>_. None)\<rparr> 90000000 [(''image_1_2.png'', \<lparr>birthtimeMs = 0\<rparr>)]
     = ([(''image_1_2.png'', \<lparr>birthtimeMs = 0\<rparr>)],
        [ErrorReadingUploadsDirectory (Error ''EACCES'')])
   \<and> run_interval
       [(\<lparr>readdir_fault = Some (Error ''EACCES''), stat_fault = (\<lambda>_. None),
           unlink_fault = (\<lambda>_. None)\<rparr>, 90000000),
        (\<lparr>readdir_fault = None, stat_fault = (\<lambda>_. None),
           unlink_fault = (\<lambda>_. None)\<rparr>, 176400000)]
       [(''image_1_2.png'', \<lparr>birthtimeMs = 0\<rparr>)]
     = ([], [ErrorReadingUploadsDirectory (Error ''EACCES''), DeletedOldFile ''image_1_2.png''])"
  using readdir_failure_ends_pass
          [of "\<lparr>readdir_fault = Some (Error ''EACCES''), stat_fault = (\<lambda>_. None),
                 unlink_fault = (\<lambda>_. None)\<rparr>" "Error ''EACCES''" 90000000
              "[(''image_1_2.png'', \<lparr>birthtimeMs = 0\<rparr>)]"
              "[(\<lparr>readdir_fault = None, stat_fault = (\<lambda>_. None),
                  unlink_fault = (\<lambda>_. None)\<rparr>, 176400000)]"]
  by (simp add: cleanup_def readdir_def cleanup_file_def stat_def unlink_def names_def
        remove_file_def UPLOAD_CLEANUP_INTERVAL_def)

end
